theory Spec2Isabelle
  imports Main
begin

section \<open>Data model of \<open>src/components/ItemManager.tsx\<close>\<close>

text \<open>
  A JavaScript object used as a dictionary is kept as the list that \<open>Object.entries\<close>
  returns for it: the (key, value) pairs in the object's iteration order. An object never
  holds a key twice, so the lists that stand for objects have distinct keys; the theorems
  that need this say so. Reading \<open>obj[key]\<close> is \<open>map_of\<close>; a key that is absent reads
  as \<open>undefined\<close>, here \<open>None\<close>.
\<close>

record tag_meta =
  title :: string
  description :: string
  category :: string

record image_entry =
  filename :: string
  label :: string
  tags_img :: "string list"

record package_data =
  displayName :: string
  images :: "image_entry list"
  tags :: "(string \<times> tag_meta) list"

text \<open>The field \<open>packages\<close> of \<open>ImagesetConfig\<close>.\<close>

type_synonym packages = "(string \<times> package_data) list"

text \<open>\<open>ItemSet\<close> and \<open>Item\<close>, with the fields of the object literals the component builds.\<close>

record item_set =
  packageName :: string
  packageDisplayName :: string
  tagName :: string
  tagTitle :: string
  images_set :: "string list"

record item =
  id_item :: string
  content :: string
  imageUrl :: string
  tags_item :: "string list"

datatype error = TypeError

section \<open>The memoised \<open>itemSets\<close>\<close>

text \<open>
  The body of the \<open>useMemo\<close> callback runs on the module-level configuration and the
  local array \<open>sets\<close>. Both are carried in the state, so that what the callback leaves
  behind can be compared with what it started from.
\<close>

record memo_state =
  config :: packages
  sets :: "item_set list"

definition push :: "item_set \<Rightarrow> memo_state \<Rightarrow> memo_state" where
  "push s st = st\<lparr>sets := sets st @ [s]\<rparr>"

text \<open>\<open>packageData.images.filter(image => image.tags.includes(tagName))\<close>\<close>

definition taggedImages :: "package_data \<Rightarrow> string \<Rightarrow> image_entry list" where
  "taggedImages packageData tgName =
     filter (\<lambda>img. tgName \<in> set (tags_img img)) (images packageData)"

text \<open>The callback of the inner \<open>forEach\<close>, over the entries of \<open>packageData.tags\<close>.\<close>

definition tag_step ::
  "string \<Rightarrow> package_data \<Rightarrow> memo_state \<Rightarrow> string \<times> tag_meta \<Rightarrow> memo_state" where
  "tag_step pkgName packageData st entry =
     (case entry of (tgName, tagData) \<Rightarrow>
        if length (taggedImages packageData tgName) > 0
        then push \<lparr>packageName = pkgName,
                   packageDisplayName = displayName packageData,
                   tagName = tgName,
                   tagTitle = title tagData,
                   images_set = map filename (taggedImages packageData tgName)\<rparr> st
        else st)"

text \<open>The callback of the outer \<open>forEach\<close>, over the entries of \<open>packages\<close>.\<close>

definition package_step :: "memo_state \<Rightarrow> string \<times> package_data \<Rightarrow> memo_state" where
  "package_step st entry =
     (case entry of (pkgName, packageData) \<Rightarrow>
        foldl (tag_step pkgName packageData)
          (push \<lparr>packageName = pkgName,
                 packageDisplayName = displayName packageData,
                 tagName = ''all'',
                 tagTitle = ''All Items'',
                 images_set = map filename (images packageData)\<rparr> st)
          (tags packageData))"

definition itemSets_run :: "packages \<Rightarrow> memo_state" where
  "itemSets_run cfg = foldl package_step \<lparr>config = cfg, sets = []\<rparr> cfg"

definition itemSets :: "packages \<Rightarrow> item_set list" where
  "itemSets cfg = sets (itemSets_run cfg)"

section \<open>Strings\<close>

text \<open>
  A number inside a template literal is rendered in decimal. The numbers rendered here
  are array indices and array lengths, which JavaScript prints without an exponent.
\<close>

definition digit_char :: "nat \<Rightarrow> char" where
  "digit_char d = ''0123456789'' ! d"

function string_of_nat :: "nat \<Rightarrow> string" where
  "string_of_nat n =
     (if n < 10 then [digit_char n]
      else string_of_nat (n div 10) @ [digit_char (n mod 10)])"
  by pat_completeness auto
termination
  by (relation "measure (\<lambda>n. n)") auto

declare string_of_nat.simps [simp del]

text \<open>\<open>s.split(c)\<close> for a one-character separator: the pieces between the separators.\<close>

fun split :: "char \<Rightarrow> string \<Rightarrow> string list" where
  "split c [] = [[]]"
| "split c (x # xs) =
     (if x = c then [] # split c xs
      else (case split c xs of
              [] \<Rightarrow> [[x]]
            | p # ps \<Rightarrow> (x # p) # ps))"

section \<open>The handlers\<close>

text \<open>
  The handlers pass the batch of items to the owner of the board as an array, that is by
  reference, and the undo action of a create reads the same array again when it is
  invoked. So the arrays of items live in a store, addressed by references, next to the
  state of the owner, of type \<open>'b\<close>, which the component never reads. An array is kept
  with the current values of its items: an edit of an item in place, through whatever
  alias, shows as a change of every array that holds the item. The props are the
  owner's code: they get the whole memory and may change the board and the arrays.
\<close>

type_synonym ref = nat

record 'b memory =
  board :: 'b
  arrays :: "ref \<Rightarrow> item list"
  next_ref :: ref

text \<open>A new array, as an array literal or \<open>Array.prototype.map\<close> makes one.\<close>

definition new_array :: "item list \<Rightarrow> 'b memory \<Rightarrow> ref \<times> 'b memory" where
  "new_array its m =
     (next_ref m, m\<lparr>arrays := (arrays m)(next_ref m := its), next_ref := Suc (next_ref m)\<rparr>)"

record 'b props =
  onItemsCreate :: "ref \<Rightarrow> 'b memory \<Rightarrow> 'b memory"
  onUndoItemsCreate :: "string list \<Rightarrow> 'b memory \<Rightarrow> 'b memory"
  resetItems :: "'b memory \<Rightarrow> 'b memory"
  deleteAllItems :: "'b memory \<Rightarrow> 'b memory"
  undoReset :: "'b memory \<Rightarrow> 'b memory"
  undoDelete :: "'b memory \<Rightarrow> 'b memory"

text \<open>
  A notification carries its undo action as a closure; invoking it runs the closure on
  the memory as it is at that moment.
\<close>

record 'b toast =
  toast_title :: string
  toast_description :: string
  action_label :: string
  action_onClick :: "'b memory \<Rightarrow> 'b memory"

record 'b world =
  mem :: "'b memory"
  isItemCreatorOpen :: bool
  toasts :: "'b toast list"

definition fire_toast :: "'b toast \<Rightarrow> 'b world \<Rightarrow> 'b world" where
  "fire_toast t w = w\<lparr>toasts := toasts w @ [t]\<rparr>"

text \<open>
  \<open>handleCreateItems\<close> gets the reference of the batch. The statements run in the order
  of the source: \<open>onItemsCreate(newItems)\<close> first, then \<open>setIsItemCreatorOpen(false)\<close>,
  then \<open>toast\<close>, whose description reads \<open>newItems.length\<close> at that point, after the
  owner has had the array. The closure \<open>() => onUndoItemsCreate(newItems.map(item =>
  item.id))\<close> reads the array when it is invoked.
\<close>

definition handleCreateItems :: "'b props \<Rightarrow> ref \<Rightarrow> 'b world \<Rightarrow> 'b world" where
  "handleCreateItems P newItemsRef w =
     (let w1 = w\<lparr>mem := onItemsCreate P newItemsRef (mem w)\<rparr>;
          w2 = w1\<lparr>isItemCreatorOpen := False\<rparr>
      in fire_toast
           \<lparr>toast_title = ''Items Added'',
            toast_description =
              string_of_nat (length (arrays (mem w2) newItemsRef)) @
              '' item(s) have been added.'',
            action_label = ''Undo'',
            action_onClick =
              (\<lambda>m. onUndoItemsCreate P (map id_item (arrays m newItemsRef)) m)\<rparr>
           w2)"

definition handleReset :: "'b props \<Rightarrow> 'b world \<Rightarrow> 'b world" where
  "handleReset P w =
     fire_toast
       \<lparr>toast_title = ''Items Reset'',
        toast_description = ''All item rankings have been reset.'',
        action_label = ''Undo'',
        action_onClick = undoReset P\<rparr>
       (w\<lparr>mem := resetItems P (mem w)\<rparr>)"

definition handleDelete :: "'b props \<Rightarrow> 'b world \<Rightarrow> 'b world" where
  "handleDelete P w =
     fire_toast
       \<lparr>toast_title = ''All Items Deleted'',
        toast_description = ''All items have been removed.'',
        action_label = ''Undo'',
        action_onClick = undoDelete P\<rparr>
       (w\<lparr>mem := deleteAllItems P (mem w)\<rparr>)"

text \<open>
  The callback of \<open>images.map\<close> in \<open>handleItemSetSelect\<close>. \<open>packageData\<close> is what
  \<open>packages[packageName]\<close> gave; reading \<open>.images\<close> of \<open>undefined\<close> throws a
  \<open>TypeError\<close> (a name that the object only inherits, such as \<open>constructor\<close>, gives a
  value without \<open>images\<close>, and \<open>.find\<close> of that throws the same). \<open>imageData?.label || d\<close> takes \<open>d\<close> when no entry was found and when
  the label is the empty string; \<open>imageData?.tags || []\<close> takes \<open>[]\<close> only when no entry
  was found, an array being truthy even when empty.
\<close>

definition newItem ::
  "package_data option \<Rightarrow> string \<Rightarrow> string \<Rightarrow> nat \<Rightarrow> string \<Rightarrow> error + item" where
  "newItem packageData pkgName tgName index imageName =
     (case packageData of
        None \<Rightarrow> Inl TypeError
      | Some pd \<Rightarrow>
          let imageData = find (\<lambda>img. filename img = imageName) (images pd) in
          Inr \<lparr>id_item = pkgName @ ''-'' @ tgName @ ''-item-'' @ string_of_nat index,
               content = (case imageData of
                            None \<Rightarrow> hd (split CHR ''.'' imageName)
                          | Some d \<Rightarrow> if label d = [] then hd (split CHR ''.'' imageName)
                                      else label d),
               imageUrl = ''/images/'' @ pkgName @ ''/'' @ imageName,
               tags_item = (case imageData of None \<Rightarrow> [] | Some d \<Rightarrow> tags_img d)\<rparr>)"

text \<open>
  \<open>Array.prototype.map\<close> with the index passed to the callback: the elements are visited
  from index 0 upwards, and the first callback that throws ends the whole call.
\<close>

fun map_index :: "(nat \<Rightarrow> 'a \<Rightarrow> error + 'c) \<Rightarrow> nat \<Rightarrow> 'a list \<Rightarrow> error + 'c list" where
  "map_index f i [] = Inr []"
| "map_index f i (x # xs) =
     (case f i x of
        Inl e \<Rightarrow> Inl e
      | Inr y \<Rightarrow> (case map_index f (Suc i) xs of
                    Inl e \<Rightarrow> Inl e
                  | Inr ys \<Rightarrow> Inr (y # ys)))"

definition newItems :: "packages \<Rightarrow> string \<Rightarrow> string \<Rightarrow> string list \<Rightarrow> error + item list" where
  "newItems cfg pkgName tgName imgs =
     map_index (newItem (map_of cfg pkgName) pkgName tgName) 0 imgs"

definition handleItemSetSelect ::
  "packages \<Rightarrow> 'b props \<Rightarrow> string \<Rightarrow> string \<Rightarrow> string list \<Rightarrow> 'b world \<Rightarrow> error + 'b world" where
  "handleItemSetSelect cfg P pkgName tgName imgs w =
     (case newItems cfg pkgName tgName imgs of
        Inl e \<Rightarrow> Inl e
      | Inr its \<Rightarrow>
          (case new_array its (mem w) of
             (r, m) \<Rightarrow> Inr (handleCreateItems P r (w\<lparr>mem := m\<rparr>))))"

section \<open>The derivation as the specification words it\<close>

text \<open>
  The two kinds of \<open>ItemSet\<close>: the unconditional one of a package, and the one of an
  entry of the package's tag map.
\<close>

definition all_set :: "string \<Rightarrow> package_data \<Rightarrow> item_set" where
  "all_set p pd =
     \<lparr>packageName = p, packageDisplayName = displayName pd, tagName = ''all'',
      tagTitle = ''All Items'', images_set = map filename (images pd)\<rparr>"

definition tag_set :: "string \<Rightarrow> package_data \<Rightarrow> string \<times> tag_meta \<Rightarrow> item_set" where
  "tag_set p pd e =
     \<lparr>packageName = p, packageDisplayName = displayName pd, tagName = fst e,
      tagTitle = title (snd e),
      images_set = map filename (filter (\<lambda>img. fst e \<in> set (tags_img img)) (images pd))\<rparr>"

text \<open>At least one image of the package carries the tag of the entry.\<close>

definition has_image :: "package_data \<Rightarrow> string \<times> tag_meta \<Rightarrow> bool" where
  "has_image pd e = list_ex (\<lambda>img. fst e \<in> set (tags_img img)) (images pd)"

text \<open>
  The algorithm of the specification: for each package in catalog order the "all" set,
  then one set for each tag of its tag map, in map order, that some image carries; the
  results concatenated.
\<close>

definition package_block :: "string \<times> package_data \<Rightarrow> item_set list" where
  "package_block e =
     all_set (fst e) (snd e) #
     map (tag_set (fst e) (snd e)) (filter (has_image (snd e)) (tags (snd e)))"

definition derive :: "packages \<Rightarrow> item_set list" where
  "derive cfg = concat (map package_block cfg)"

text \<open>The sets of an output that name a package, and those that name a package and a tag.\<close>

definition sets_of :: "string \<Rightarrow> item_set list \<Rightarrow> item_set list" where
  "sets_of p xs = filter (\<lambda>s. packageName s = p) xs"

definition sets_named :: "string \<Rightarrow> string \<Rightarrow> item_set list \<Rightarrow> item_set list" where
  "sets_named p t xs = filter (\<lambda>s. packageName s = p \<and> tagName s = t) xs"

section \<open>Example configurations\<close>

definition animals :: package_data where
  "animals =
     \<lparr>displayName = ''Animals'',
      images = [\<lparr>filename = ''cat.png'', label = ''Cat'', tags_img = [''mammal'']\<rparr>,
                \<lparr>filename = ''fish.png'', label = ''Fish'', tags_img = []\<rparr>,
                \<lparr>filename = ''owl.v2.png'', label = [], tags_img = [''bird'']\<rparr>],
      tags = [(''mammal'', \<lparr>title = ''Mammals'', description = [], category = ''class''\<rparr>),
              (''reptile'', \<lparr>title = ''Reptiles'', description = [], category = ''class''\<rparr>)]\<rparr>"

definition plants :: package_data where
  "plants = \<lparr>displayName = ''Plants'', images = [], tags = []\<rparr>"

definition example_config :: packages where
  "example_config = [(''animals'', animals), (''plants'', plants)]"

text \<open>A package whose tag map has the key \<open>all\<close>, carried by one of its images.\<close>

definition drinks :: package_data where
  "drinks =
     \<lparr>displayName = ''Drinks'',
      images = [\<lparr>filename = ''tea.png'', label = ''Tea'', tags_img = [''all'']\<rparr>,
                \<lparr>filename = ''cola.png'', label = ''Cola'', tags_img = []\<rparr>],
      tags = [(''all'', \<lparr>title = ''Everything'', description = [], category = []\<rparr>)]\<rparr>"

text \<open>A package whose tag map has the key \<open>all\<close>, carried by none of its images.\<close>

definition tools :: package_data where
  "tools =
     \<lparr>displayName = ''Tools'',
      images = [\<lparr>filename = ''saw.png'', label = ''Saw'', tags_img = []\<rparr>],
      tags = [(''all'', \<lparr>title = ''Everything'', description = [], category = []\<rparr>)]\<rparr>"

text \<open>
  An owner of the board that only records the requests it receives, in the order in which
  they arrive and with the items the array holds when they arrive, and leaves the
  arrays alone; and the component as it is mounted.
\<close>

datatype call =
  ItemsCreate "item list"
| UndoItemsCreate "string list"
| ResetItems
| DeleteAllItems
| UndoReset
| UndoDelete

definition recording_props :: "call list props" where
  "recording_props =
     \<lparr>onItemsCreate = (\<lambda>r m. m\<lparr>board := board m @ [ItemsCreate (arrays m r)]\<rparr>),
      onUndoItemsCreate = (\<lambda>ids m. m\<lparr>board := board m @ [UndoItemsCreate ids]\<rparr>),
      resetItems = (\<lambda>m. m\<lparr>board := board m @ [ResetItems]\<rparr>),
      deleteAllItems = (\<lambda>m. m\<lparr>board := board m @ [DeleteAllItems]\<rparr>),
      undoReset = (\<lambda>m. m\<lparr>board := board m @ [UndoReset]\<rparr>),
      undoDelete = (\<lambda>m. m\<lparr>board := board m @ [UndoDelete]\<rparr>)\<rparr>"

definition mounted :: "call list world" where
  "mounted =
     \<lparr>mem = \<lparr>board = [], arrays = (\<lambda>r. []), next_ref = 0\<rparr>,
      isItemCreatorOpen = False, toasts = []\<rparr>"

text \<open>Two items with the same id and different values, and an item with another id.\<close>

definition cat_item :: item where
  "cat_item =
     \<lparr>id_item = ''animals-all-item-0'', content = ''Cat'',
      imageUrl = ''/images/animals/cat.png'', tags_item = [''mammal'']\<rparr>"

definition tiger_item :: item where
  "tiger_item =
     \<lparr>id_item = ''animals-all-item-0'', content = ''Tiger'',
      imageUrl = ''/images/animals/cat.png'', tags_item = []\<rparr>"

definition renamed_item :: item where
  "renamed_item =
     \<lparr>id_item = ''renamed'', content = ''Cat'',
      imageUrl = ''/images/animals/cat.png'', tags_item = [''mammal'']\<rparr>"

text \<open>
  An owner that records like the one above and, when it is handed a batch, also appends
  an item of its own to the array it was handed.
\<close>

definition pushing_props :: "call list props" where
  "pushing_props =
     recording_props
       \<lparr>onItemsCreate :=
          (\<lambda>r m. m\<lparr>board := board m @ [ItemsCreate (arrays m r)],
                    arrays := (arrays m)(r := arrays m r @ [renamed_item])\<rparr>)\<rparr>"

text \<open>
  A batch as the array at reference 0 in the memory of the mounted component; the
  create, by the recording owner, of the batch that holds \<open>cat_item\<close>; and the memory
  after that create once the id of the item of the batch has been edited.
\<close>

definition with_batch :: "item list \<Rightarrow> call list world" where
  "with_batch its = mounted\<lparr>mem := snd (new_array its (mem mounted))\<rparr>"

definition created :: "call list world" where
  "created = handleCreateItems recording_props 0 (with_batch [cat_item])"

definition edited :: "call list memory" where
  "edited = (mem created)\<lparr>arrays := (arrays (mem created))(0 := [renamed_item])\<rparr>"

text \<open>
  The memory after that create once a reset has been requested and the item of the
  batch has been edited with its id left as it was.
\<close>

definition reset_and_retitled :: "call list memory" where
  "reset_and_retitled =
     (resetItems recording_props (mem created))
       \<lparr>arrays := (arrays (mem created))(0 := [tiger_item])\<rparr>"

text \<open>The number that a string of decimal digits denotes.\<close>

definition digit_val :: "char \<Rightarrow> nat" where
  "digit_val c = of_char c - 48"

definition nat_of_digits :: "string \<Rightarrow> nat" where
  "nat_of_digits ds = foldl (\<lambda>a c. 10 * a + digit_val c) 0 ds"

section \<open>The loops of \<open>itemSets\<close> compute the derivation\<close>

lemma tag_step_sets:
  "sets (tag_step p pd st e) = sets st @ (if has_image pd e then [tag_set p pd e] else [])"
  by (cases e)
    (simp add: tag_step_def has_image_def tag_set_def taggedImages_def push_def
      list_ex_iff filter_empty_conv)

lemma tag_step_config: "config (tag_step p pd st e) = config st"
  by (cases e) (simp add: tag_step_def push_def)

lemma foldl_tag_step_sets:
  "sets (foldl (tag_step p pd) st ts) = sets st @ map (tag_set p pd) (filter (has_image pd) ts)"
  by (induction ts arbitrary: st) (simp_all add: tag_step_sets)

lemma foldl_tag_step_config: "config (foldl (tag_step p pd) st ts) = config st"
  by (induction ts arbitrary: st) (simp_all add: tag_step_config)

lemma package_step_sets: "sets (package_step st e) = sets st @ package_block e"
  by (cases e)
    (simp add: package_step_def foldl_tag_step_sets push_def package_block_def all_set_def)

lemma package_step_config: "config (package_step st e) = config st"
  by (cases e) (simp add: package_step_def foldl_tag_step_config push_def)

lemma foldl_package_step_sets: "sets (foldl package_step st es) = sets st @ derive es"
  by (induction es arbitrary: st) (simp_all add: package_step_sets derive_def)

lemma foldl_package_step_config: "config (foldl package_step st es) = config st"
  by (induction es arbitrary: st) (simp_all add: package_step_config)

lemma itemSets_derive: "itemSets cfg = derive cfg"
  by (simp add: itemSets_def itemSets_run_def foldl_package_step_sets)

subsection \<open>The sets of one package\<close>

lemma packageName_block: "s \<in> set (package_block e) \<Longrightarrow> packageName s = fst e"
  by (auto simp: package_block_def all_set_def tag_set_def)

lemma sets_of_block_other: "fst e \<noteq> p \<Longrightarrow> sets_of p (package_block e) = []"
  by (auto simp: sets_of_def filter_empty_conv dest: packageName_block)

lemma sets_of_block_same: "sets_of (fst e) (package_block e) = package_block e"
  by (auto simp: sets_of_def filter_id_conv dest: packageName_block)

lemma sets_of_append: "sets_of p (xs @ ys) = sets_of p xs @ sets_of p ys"
  by (simp add: sets_of_def)

lemma derive_other_packages: "p \<notin> fst ` set cfg \<Longrightarrow> sets_of p (derive cfg) = []"
proof (induction cfg)
  case Nil
  then show ?case by (simp add: derive_def sets_of_def)
next
  case (Cons e cfg)
  then have "fst e \<noteq> p" by auto
  then show ?case using Cons sets_of_block_other [of e p]
    by (simp add: derive_def sets_of_append)
qed

lemma derive_of_package:
  "distinct (map fst cfg) \<Longrightarrow> (p, pd) \<in> set cfg \<Longrightarrow> sets_of p (derive cfg) = package_block (p, pd)"
proof (induction cfg)
  case Nil
  then show ?case by simp
next
  case (Cons e cfg)
  show ?case
  proof (cases "e = (p, pd)")
    case True
    have "p \<notin> fst ` set cfg" using Cons.prems(1) True by auto
    then have "sets_of p (derive cfg) = []"
      by (rule derive_other_packages)
    then show ?thesis using True sets_of_block_same [of "(p, pd)"]
      by (simp add: derive_def sets_of_append)
  next
    case False
    then have mem: "(p, pd) \<in> set cfg" using Cons.prems(2) by simp
    then have "fst e \<noteq> p" using Cons.prems(1) by (auto simp: image_iff)
    then show ?thesis using Cons.IH mem Cons.prems(1) sets_of_block_other [of e p]
      by (simp add: derive_def sets_of_append)
  qed
qed

lemma sets_named_of: "sets_named p t xs = filter (\<lambda>s. tagName s = t) (sets_of p xs)"
  by (simp add: sets_named_def sets_of_def conj_commute)

lemma filter_key:
  "distinct (map fst ts) \<Longrightarrow> (t, td) \<in> set ts \<Longrightarrow> filter (\<lambda>e. fst e = t) ts = [(t, td)]"
proof (induction ts)
  case Nil
  then show ?case by simp
next
  case (Cons e ts)
  show ?case
  proof (cases "e = (t, td)")
    case True
    then have "t \<notin> fst ` set ts" using Cons.prems(1) by auto
    then have "filter (\<lambda>e. fst e = t) ts = []" by (auto simp: filter_empty_conv)
    then show ?thesis using True by simp
  next
    case False
    then have mem: "(t, td) \<in> set ts" using Cons.prems(2) by simp
    then have "fst e \<noteq> t" using Cons.prems(1) by (auto simp: image_iff)
    then show ?thesis using Cons.IH mem Cons.prems(1) by simp
  qed
qed

lemma tagName_tag_set: "tagName (tag_set p pd e) = fst e"
  by (simp add: tag_set_def)

lemma filter_tag_sets:
  "filter (\<lambda>s. tagName s = t) (map (tag_set p pd) es) =
   map (tag_set p pd) (filter (\<lambda>e. fst e = t) es)"
  by (induction es) (simp_all add: tagName_tag_set)

lemma tag_sets_named:
  assumes "distinct (map fst (tags pd))" and "(t, td) \<in> set (tags pd)"
  shows "filter (\<lambda>s. tagName s = t) (map (tag_set p pd) (filter (has_image pd) (tags pd))) =
           (if has_image pd (t, td) then [tag_set p pd (t, td)] else [])"
proof -
  have "filter (\<lambda>e. fst e = t) (filter (has_image pd) (tags pd)) =
          filter (has_image pd) (filter (\<lambda>e. fst e = t) (tags pd))"
    by (simp add: conj_commute)
  also have "\<dots> = (if has_image pd (t, td) then [(t, td)] else [])"
    using filter_key [OF assms] by simp
  finally show ?thesis
    by (simp add: filter_tag_sets)
qed

section \<open>Properties of the derivation\<close>

lemmas example_defs =
  example_config_def animals_def plants_def drinks_def tools_def

lemmas run_defs =
  itemSets_def itemSets_run_def package_step_def tag_step_def taggedImages_def push_def
  sets_named_def sets_of_def

text \<open>
  Claim C1, amended. For every catalog and each of its packages, the sets of the output
  that name the package and carry the tag name \<open>all\<close> are, in output order: the
  unconditional set, whose images are the file names of all images of the package in
  their original order (so the empty list for a package without images), and then the
  set of the entry \<open>all\<close> of the package's tag map, when there is such an entry and
  an image carries it. There is exactly one such set when the tag map has no entry
  \<open>all\<close> that an image carries.
\<close>

theorem all_set_per_package:
  assumes "distinct (map fst cfg)" and "(p, pd) \<in> set cfg"
  shows "sets_named p ''all'' (itemSets cfg) =
           all_set p pd #
           map (tag_set p pd) (filter (\<lambda>e. fst e = ''all'' \<and> has_image pd e) (tags pd))
         \<and> images_set (all_set p pd) = map filename (images pd)
         \<and> ((\<forall>e \<in> set (tags pd). fst e = ''all'' \<longrightarrow> \<not> has_image pd e) \<longrightarrow>
              sets_named p ''all'' (itemSets cfg) = [all_set p pd])"
proof -
  have blk: "sets_of p (itemSets cfg) = package_block (p, pd)"
    using assms by (simp add: itemSets_derive derive_of_package)
  have "filter (\<lambda>e. fst e = ''all'') (filter (has_image pd) (tags pd)) =
          filter (\<lambda>e. fst e = ''all'' \<and> has_image pd e) (tags pd)"
    by (simp add: conj_commute)
  then have eq: "sets_named p ''all'' (itemSets cfg) =
           all_set p pd #
           map (tag_set p pd) (filter (\<lambda>e. fst e = ''all'' \<and> has_image pd e) (tags pd))"
    unfolding sets_named_of blk package_block_def
    by (simp add: filter_tag_sets all_set_def)
  have "(\<forall>e \<in> set (tags pd). fst e = ''all'' \<longrightarrow> \<not> has_image pd e) \<longrightarrow>
          filter (\<lambda>e. fst e = ''all'' \<and> has_image pd e) (tags pd) = []"
    by (auto simp: filter_empty_conv)
  then show ?thesis using eq by (simp add: all_set_def)
qed

theorem all_set_per_package_witness:
  "sets_named ''animals'' ''all'' (itemSets example_config) =
     [\<lparr>packageName = ''animals'', packageDisplayName = ''Animals'', tagName = ''all'',
       tagTitle = ''All Items'', images_set = [''cat.png'', ''fish.png'', ''owl.v2.png'']\<rparr>]
   \<and> sets_named ''plants'' ''all'' (itemSets example_config) =
     [\<lparr>packageName = ''plants'', packageDisplayName = ''Plants'', tagName = ''all'',
       tagTitle = ''All Items'', images_set = []\<rparr>]"
  using all_set_per_package [of example_config "''animals''" animals]
    all_set_per_package [of example_config "''plants''" plants]
  by (simp add: example_defs all_set_def has_image_def)

text \<open>
  The package \<open>drinks\<close> has the tag \<open>all\<close> in its tag map and an image that carries it:
  the output holds two sets named \<open>all\<close> for it, and the second one does not list all
  the images.
\<close>

theorem all_set_twice_counterexample:
  "sets_named ''drinks'' ''all'' (itemSets [(''drinks'', drinks)]) =
     [\<lparr>packageName = ''drinks'', packageDisplayName = ''Drinks'', tagName = ''all'',
       tagTitle = ''All Items'', images_set = [''tea.png'', ''cola.png'']\<rparr>,
      \<lparr>packageName = ''drinks'', packageDisplayName = ''Drinks'', tagName = ''all'',
       tagTitle = ''Everything'', images_set = [''tea.png'']\<rparr>]"
  by (simp add: run_defs example_defs)

text \<open>
  Claim C2, amended. For every catalog, every package \<open>p\<close> of it and every entry
  \<open>(t, td)\<close> of the tag map of \<open>p\<close>, the sets of the output named \<open>(p, t)\<close> are: the
  set of the tag, with the title of \<open>td\<close> and the file names of the images of \<open>p\<close>
  that carry \<open>t\<close>, in the order of the images, when at least one image carries \<open>t\<close>,
  and no set otherwise; for the tag \<open>all\<close>, the unconditional set of the package comes
  before it, whether or not an image carries the tag.
\<close>

theorem tag_set_iff_image:
  assumes "distinct (map fst cfg)" and "(p, pd) \<in> set cfg"
    and "distinct (map fst (tags pd))" and "(t, td) \<in> set (tags pd)"
  shows "sets_named p t (itemSets cfg) =
           (if t = ''all'' then [all_set p pd] else []) @
           (if list_ex (\<lambda>img. t \<in> set (tags_img img)) (images pd)
            then [\<lparr>packageName = p, packageDisplayName = displayName pd, tagName = t,
                   tagTitle = title td,
                   images_set =
                     map filename (filter (\<lambda>img. t \<in> set (tags_img img)) (images pd))\<rparr>]
            else [])"
proof -
  have blk: "sets_of p (itemSets cfg) = package_block (p, pd)"
    using assms(1,2) by (simp add: itemSets_derive derive_of_package)
  have "sets_named p t (itemSets cfg) =
          (if t = ''all'' then [all_set p pd] else []) @
          (if has_image pd (t, td) then [tag_set p pd (t, td)] else [])"
    unfolding sets_named_of blk package_block_def
    using tag_sets_named [OF assms(3,4), of p]
    by (auto simp: all_set_def)
  then show ?thesis by (simp add: has_image_def tag_set_def)
qed

theorem tag_set_iff_image_witness:
  "sets_named ''animals'' ''mammal'' (itemSets example_config) =
     [\<lparr>packageName = ''animals'', packageDisplayName = ''Animals'', tagName = ''mammal'',
       tagTitle = ''Mammals'', images_set = [''cat.png'']\<rparr>]
   \<and> sets_named ''animals'' ''reptile'' (itemSets example_config) = []"
  using tag_set_iff_image [of example_config "''animals''" animals "''mammal''"
      "\<lparr>title = ''Mammals'', description = [], category = ''class''\<rparr>"]
    tag_set_iff_image [of example_config "''animals''" animals "''reptile''"
      "\<lparr>title = ''Reptiles'', description = [], category = ''class''\<rparr>"]
  by (simp add: example_defs)

text \<open>
  The package \<open>tools\<close> has the tag \<open>all\<close> in its tag map and no image that carries
  it, and the output still holds a set named \<open>all\<close> for it.
\<close>

theorem unused_all_tag_counterexample:
  "map_of (tags tools) ''all'' =
     Some \<lparr>title = ''Everything'', description = [], category = []\<rparr>
   \<and> taggedImages tools ''all'' = []
   \<and> sets_named ''tools'' ''all'' (itemSets [(''tools'', tools)]) =
     [\<lparr>packageName = ''tools'', packageDisplayName = ''Tools'', tagName = ''all'',
       tagTitle = ''All Items'', images_set = [''saw.png'']\<rparr>]"
  by (simp add: run_defs example_defs)

text \<open>
  Claim C7. The output of the loops is the derivation of the specification: the
  packages in the order of the catalog, and for each package its "all" set followed by
  the sets of the tags that an image carries, in the order of the tag map. The second
  part reads the same off the names of the sets alone.
\<close>

theorem itemSets_order:
  "itemSets cfg = derive cfg
   \<and> map (\<lambda>s. (packageName s, tagName s)) (itemSets cfg) =
     concat (map (\<lambda>e. (fst e, ''all'') #
                       map (\<lambda>te. (fst e, fst te)) (filter (has_image (snd e)) (tags (snd e))))
              cfg)"
proof -
  have "map (\<lambda>s. (packageName s, tagName s)) (derive cfg) =
     concat (map (\<lambda>e. (fst e, ''all'') #
                       map (\<lambda>te. (fst e, fst te)) (filter (has_image (snd e)) (tags (snd e))))
              cfg)"
    by (induction cfg)
      (simp_all add: derive_def package_block_def all_set_def tag_set_def comp_def)
  then show ?thesis by (simp add: itemSets_derive)
qed

text \<open>
  Claim C9. Computing the sets leaves the configuration as it was, and computing them
  again, on the configuration the first computation left behind, gives the same list.
  What the loops add to the array depends on the entries they run over and on nothing
  else: started on any array, they append the same sets in the same order.
\<close>

theorem itemSets_recomputed:
  "config (itemSets_run cfg) = cfg
   \<and> sets (itemSets_run (config (itemSets_run cfg))) = sets (itemSets_run cfg)
   \<and> itemSets (config (itemSets_run cfg)) = itemSets cfg
   \<and> sets (foldl package_step \<lparr>config = c, sets = acc\<rparr> cfg) = acc @ itemSets cfg"
  by (simp add: itemSets_run_def foldl_package_step_config foldl_package_step_sets
      itemSets_def)

text \<open>
  Claim C10, amended. For every package of the catalog, the first set the output holds
  for it is the unconditional "all" set, whose title is \<open>All Items\<close> whatever the tag
  map of the package says, and every set the output holds for the package carries the
  display name of the package. The titles of the sets of the package that are named
  \<open>all\<close> are \<open>All Items\<close>, followed by the title that the tag map gives the tag
  \<open>all\<close> when the map has that tag and an image carries it; so every set of the
  package named \<open>all\<close> is titled \<open>All Items\<close> when there is no such tag.
\<close>

theorem all_title_and_display_name:
  assumes "distinct (map fst cfg)" and "(p, pd) \<in> set cfg"
  shows "(\<exists>rest. sets_of p (itemSets cfg) =
            \<lparr>packageName = p, packageDisplayName = displayName pd, tagName = ''all'',
             tagTitle = ''All Items'', images_set = map filename (images pd)\<rparr> # rest)
         \<and> (\<forall>s \<in> set (itemSets cfg). packageName s = p \<longrightarrow>
              packageDisplayName s = displayName pd)
         \<and> map tagTitle (sets_named p ''all'' (itemSets cfg)) =
              ''All Items'' #
              map (\<lambda>e. title (snd e))
                (filter (\<lambda>e. fst e = ''all'' \<and> has_image pd e) (tags pd))
         \<and> ((\<forall>e \<in> set (tags pd). fst e = ''all'' \<longrightarrow> \<not> has_image pd e) \<longrightarrow>
              (\<forall>s \<in> set (itemSets cfg). packageName s = p \<and> tagName s = ''all'' \<longrightarrow>
                 tagTitle s = ''All Items''))"
proof -
  have blk: "sets_of p (itemSets cfg) = package_block (p, pd)"
    using assms by (simp add: itemSets_derive derive_of_package)
  have "\<forall>s \<in> set (package_block (p, pd)). packageDisplayName s = displayName pd"
    by (auto simp: package_block_def all_set_def tag_set_def)
  then have "\<forall>s \<in> set (sets_of p (itemSets cfg)). packageDisplayName s = displayName pd"
    by (simp only: blk)
  then have names: "\<forall>s \<in> set (itemSets cfg). packageName s = p \<longrightarrow>
              packageDisplayName s = displayName pd"
    by (simp add: sets_of_def)
  have "filter (\<lambda>e. fst e = ''all'') (filter (has_image pd) (tags pd)) =
          filter (\<lambda>e. fst e = ''all'' \<and> has_image pd e) (tags pd)"
    by (simp add: conj_commute)
  then have eq: "sets_named p ''all'' (itemSets cfg) =
           all_set p pd #
           map (tag_set p pd) (filter (\<lambda>e. fst e = ''all'' \<and> has_image pd e) (tags pd))"
    unfolding sets_named_of blk package_block_def
    by (simp add: filter_tag_sets all_set_def)
  have titles: "map tagTitle (sets_named p ''all'' (itemSets cfg)) =
              ''All Items'' #
              map (\<lambda>e. title (snd e))
                (filter (\<lambda>e. fst e = ''all'' \<and> has_image pd e) (tags pd))"
    unfolding eq by (simp add: all_set_def tag_set_def comp_def)
  have only: "(\<forall>e \<in> set (tags pd). fst e = ''all'' \<longrightarrow> \<not> has_image pd e) \<longrightarrow>
              (\<forall>s \<in> set (itemSets cfg). packageName s = p \<and> tagName s = ''all'' \<longrightarrow>
                 tagTitle s = ''All Items'')"
  proof
    assume none: "\<forall>e \<in> set (tags pd). fst e = ''all'' \<longrightarrow> \<not> has_image pd e"
    then have "filter (\<lambda>e. fst e = ''all'' \<and> has_image pd e) (tags pd) = []"
      by (auto simp: filter_empty_conv)
    then have "sets_named p ''all'' (itemSets cfg) = [all_set p pd]"
      using eq by simp
    then have "\<forall>s \<in> set (sets_named p ''all'' (itemSets cfg)). tagTitle s = ''All Items''"
      by (simp add: all_set_def)
    then show "\<forall>s \<in> set (itemSets cfg). packageName s = p \<and> tagName s = ''all'' \<longrightarrow>
                 tagTitle s = ''All Items''"
      by (simp add: sets_named_def)
  qed
  from blk have first: "\<exists>rest. sets_of p (itemSets cfg) =
            \<lparr>packageName = p, packageDisplayName = displayName pd, tagName = ''all'',
             tagTitle = ''All Items'', images_set = map filename (images pd)\<rparr> # rest"
    by (simp add: package_block_def all_set_def)
  from first names titles only show ?thesis by blast
qed

theorem all_title_and_display_name_witness:
  "(\<exists>rest. sets_of ''drinks'' (itemSets [(''tools'', tools), (''drinks'', drinks)]) =
      \<lparr>packageName = ''drinks'', packageDisplayName = ''Drinks'', tagName = ''all'',
       tagTitle = ''All Items'', images_set = [''tea.png'', ''cola.png'']\<rparr> # rest)
   \<and> list_all (\<lambda>s. packageDisplayName s = ''Drinks'')
        (sets_of ''drinks'' (itemSets [(''tools'', tools), (''drinks'', drinks)]))
   \<and> list_all (\<lambda>s. tagTitle s = ''All Items'')
        (sets_named ''tools'' ''all'' (itemSets [(''tools'', tools), (''drinks'', drinks)]))"
proof -
  let ?cfg = "[(''tools'', tools), (''drinks'', drinks)]"
  have d: "distinct (map fst ?cfg)" by simp
  have "(\<exists>rest. sets_of ''drinks'' (itemSets ?cfg) =
      \<lparr>packageName = ''drinks'', packageDisplayName = ''Drinks'', tagName = ''all'',
       tagTitle = ''All Items'', images_set = [''tea.png'', ''cola.png'']\<rparr> # rest)
   \<and> list_all (\<lambda>s. packageDisplayName s = ''Drinks'') (sets_of ''drinks'' (itemSets ?cfg))"
    using all_title_and_display_name [of ?cfg "''drinks''" drinks]
    by (simp add: drinks_def list_all_iff sets_of_def)
  moreover have "list_all (\<lambda>s. tagTitle s = ''All Items'')
        (sets_named ''tools'' ''all'' (itemSets ?cfg))"
    using all_title_and_display_name [of ?cfg "''tools''" tools]
    by (simp add: tools_def has_image_def list_all_iff sets_named_def)
  ultimately show ?thesis by simp
qed

text \<open>
  The package \<open>drinks\<close> has the tag \<open>all\<close>, titled \<open>Everything\<close>, and an image that
  carries it: the second set named \<open>all\<close> of the package takes its title from the
  tag map.
\<close>

theorem all_title_counterexample:
  "map tagTitle (sets_named ''drinks'' ''all'' (itemSets [(''drinks'', drinks)])) =
     [''All Items'', ''Everything'']"
  by (simp add: run_defs example_defs)

section \<open>Strings and the indexed map\<close>

lemma digit_val_digit_char: "d < 10 \<Longrightarrow> digit_val (digit_char d) = d"
proof -
  assume "d < 10"
  then have "d = 0 \<or> d = 1 \<or> d = 2 \<or> d = 3 \<or> d = 4 \<or> d = 5 \<or> d = 6 \<or> d = 7 \<or> d = 8 \<or> d = 9"
    by arith
  then show ?thesis
    by (elim disjE) (simp_all add: digit_val_def digit_char_def)
qed

lemma nat_of_digits_snoc: "nat_of_digits (ds @ [c]) = 10 * nat_of_digits ds + digit_val c"
  by (simp add: nat_of_digits_def)

text \<open>The string of a number denotes that number, so different numbers have different strings.\<close>

lemma nat_of_digits_string_of_nat: "nat_of_digits (string_of_nat n) = n"
proof (induction n rule: string_of_nat.induct)
  case (1 n)
  show ?case
  proof (cases "n < 10")
    case True
    then show ?thesis
      using nat_of_digits_snoc [of "[]" "digit_char n"]
      by (simp add: string_of_nat.simps [of n] digit_val_digit_char nat_of_digits_def)
  next
    case False
    then have "nat_of_digits (string_of_nat (n div 10)) = n div 10" using 1 by simp
    then show ?thesis using False
      by (simp add: string_of_nat.simps [of n] nat_of_digits_snoc digit_val_digit_char)
  qed
qed

lemma string_of_nat_inj: "string_of_nat m = string_of_nat n \<Longrightarrow> m = n"
  by (metis nat_of_digits_string_of_nat)

lemma split_nonempty: "split c s \<noteq> []"
  by (induction s) (simp_all split: list.splits)

text \<open>The first piece of a split is the text before the first separator.\<close>

lemma hd_split: "hd (split c s) = takeWhile (\<lambda>x. x \<noteq> c) s"
  using split_nonempty [of c] by (induction s) (auto split: list.splits)

lemma upt_0_Suc: "[0..<Suc n] = 0 # map Suc [0..<n]"
  by (simp add: upt_conv_Cons map_Suc_upt del: upt_Suc)

lemma map_index_Inr:
  assumes "\<And>i x. f i x = Inr (g i x)"
  shows "map_index f k xs = Inr (map (\<lambda>j. g (k + j) (xs ! j)) [0..<length xs])"
proof (induction xs arbitrary: k)
  case Nil
  then show ?case by simp
next
  case (Cons x xs)
  have "map (\<lambda>j. g (k + j) ((x # xs) ! j)) [0..<length (x # xs)] =
          g k x # map (\<lambda>j. g (Suc k + j) (xs ! j)) [0..<length xs]"
    by (simp add: upt_0_Suc comp_def del: upt_Suc)
  then show ?case using Cons [of "Suc k"] by (simp add: assms)
qed

lemma map_index_Inl:
  assumes "\<And>i x. f i x = Inl e"
  shows "map_index f k xs = (if xs = [] then Inr [] else Inl e)"
  by (cases xs) (simp_all add: assms)

section \<open>Properties of \<open>handleItemSetSelect\<close>\<close>

lemma newItem_None: "newItem None p t i x = Inl TypeError"
  by (simp add: newItem_def)

lemma newItem_Some: "newItem (Some pd) p t i x = Inr (projr (newItem (Some pd) p t i x))"
  by (simp add: newItem_def Let_def)

lemma newItems_present:
  assumes "map_of cfg p = Some pd"
  shows "newItems cfg p t imgs =
           Inr (map (\<lambda>j. projr (newItem (Some pd) p t j (imgs ! j))) [0..<length imgs])"
  unfolding newItems_def assms
  using map_index_Inr [of "newItem (Some pd) p t" "\<lambda>i x. projr (newItem (Some pd) p t i x)" 0 imgs]
    newItem_Some [of pd p t]
  by simp

lemma newItems_absent:
  assumes "map_of cfg p = None"
  shows "newItems cfg p t imgs = (if imgs = [] then Inr [] else Inl TypeError)"
  unfolding newItems_def assms
  by (rule map_index_Inl) (rule newItem_None)

lemma id_newItem:
  "id_item (projr (newItem (Some pd) p t i x)) = p @ ''-'' @ t @ ''-item-'' @ string_of_nat i"
  by (simp add: newItem_def Let_def)

lemma content_newItem:
  "content (projr (newItem (Some pd) p t i x)) =
     (case find (\<lambda>img. filename img = x) (images pd) of
        None \<Rightarrow> takeWhile (\<lambda>c. c \<noteq> CHR ''.'') x
      | Some d \<Rightarrow> if label d \<noteq> [] then label d else takeWhile (\<lambda>c. c \<noteq> CHR ''.'') x)"
  by (simp add: newItem_def Let_def hd_split split: option.splits)

lemma imageUrl_newItem:
  "imageUrl (projr (newItem (Some pd) p t i x)) = ''/images/'' @ p @ ''/'' @ x"
  by (simp add: newItem_def Let_def)

lemma tags_newItem:
  "tags_item (projr (newItem (Some pd) p t i x)) =
     (case find (\<lambda>img. filename img = x) (images pd) of None \<Rightarrow> [] | Some d \<Rightarrow> tags_img d)"
  by (simp add: newItem_def Let_def)

lemma distinct_ids: "distinct (map (\<lambda>j. pre @ string_of_nat j) [0..<n])"
  by (simp add: distinct_map inj_on_def string_of_nat_inj)

text \<open>
  Claim C3, amended. For a package name that the catalog does not have, the items are
  built only for the empty selection: there are none, and they go to
  \<open>handleCreateItems\<close> as a new, empty array. For every other selection the first look-up of an image throws
  a \<open>TypeError\<close>, and nothing is created. The defaults stand in for an image that is
  missing from a package that exists, not for a package that is missing.
\<close>

theorem absent_package_raises:
  assumes "map_of cfg pkg = None"
  shows "newItems cfg pkg tg imgs = (if imgs = [] then Inr [] else Inl TypeError)
         \<and> handleItemSetSelect cfg P pkg tg imgs w =
             (if imgs = []
              then Inr (handleCreateItems P (next_ref (mem w))
                          (w\<lparr>mem := snd (new_array [] (mem w))\<rparr>))
              else Inl TypeError)
         \<and> arrays (snd (new_array [] (mem w))) (next_ref (mem w)) = []"
  by (simp add: handleItemSetSelect_def newItems_absent [OF assms] new_array_def)

theorem absent_package_raises_witness:
  "map_of example_config ''fungi'' = None
   \<and> newItems example_config ''fungi'' ''all'' [] = Inr []
   \<and> handleItemSetSelect example_config recording_props ''fungi'' ''edible''
        [''morel.png'', ''cep.png''] mounted = Inl TypeError"
  using absent_package_raises [of example_config "''fungi''" "''all''" "[]" recording_props mounted]
    absent_package_raises [of example_config "''fungi''" "''edible''" "[''morel.png'', ''cep.png'']"
      recording_props mounted]
  by (simp add: example_config_def)

text \<open>The catalog has no package \<open>fungi\<close>; selecting one image of it throws.\<close>

theorem absent_package_counterexample:
  "handleItemSetSelect example_config recording_props ''fungi'' ''all'' [''morel.png''] mounted =
     Inl TypeError"
  by (simp add: handleItemSetSelect_def newItems_def newItem_def example_config_def)

text \<open>
  Claim C4. For a package of the catalog, every file name of the selection gives an
  item at the same position. Its content is the label of the first image entry of the
  package with that file name, when there is such an entry and its label is not empty,
  and the file name up to its first dot otherwise; its URL is \<open>/images/\<close>, the package
  name, \<open>/\<close> and the file name; its tags are those of that image entry, and none when
  no entry has the file name.
\<close>

theorem item_fields:
  assumes "map_of cfg pkg = Some pd"
  shows "\<exists>its. newItems cfg pkg tg imgs = Inr its \<and> length its = length imgs \<and>
           (\<forall>i < length imgs.
              content (its ! i) =
                (case find (\<lambda>img. filename img = imgs ! i) (images pd) of
                   None \<Rightarrow> takeWhile (\<lambda>c. c \<noteq> CHR ''.'') (imgs ! i)
                 | Some d \<Rightarrow> if label d \<noteq> [] then label d
                             else takeWhile (\<lambda>c. c \<noteq> CHR ''.'') (imgs ! i))
              \<and> imageUrl (its ! i) = ''/images/'' @ pkg @ ''/'' @ imgs ! i
              \<and> tags_item (its ! i) =
                (case find (\<lambda>img. filename img = imgs ! i) (images pd) of
                   None \<Rightarrow> []
                 | Some d \<Rightarrow> tags_img d))"
  by (simp add: newItems_present [OF assms] content_newItem imageUrl_newItem tags_newItem)

theorem item_fields_witness:
  "\<exists>its. newItems example_config ''animals'' ''all''
            [''cat.png'', ''owl.v2.png'', ''ghost.png''] = Inr its
     \<and> length its = 3
     \<and> content (its ! 0) = ''Cat'' \<and> tags_item (its ! 0) = [''mammal'']
     \<and> imageUrl (its ! 0) = ''/images/animals/cat.png''
     \<and> content (its ! 1) = ''owl'' \<and> tags_item (its ! 1) = [''bird'']
     \<and> content (its ! 2) = ''ghost'' \<and> tags_item (its ! 2) = []"
proof -
  let ?sel = "[''cat.png'', ''owl.v2.png'', ''ghost.png'']"
  have m: "map_of example_config ''animals'' = Some animals"
    by (simp add: example_config_def)
  obtain its where its:
    "newItems example_config ''animals'' ''all'' ?sel = Inr its"
    "length its = length ?sel"
    "\<forall>i < length ?sel.
       content (its ! i) =
         (case find (\<lambda>img. filename img = ?sel ! i) (images animals) of
            None \<Rightarrow> takeWhile (\<lambda>c. c \<noteq> CHR ''.'') (?sel ! i)
          | Some d \<Rightarrow> if label d \<noteq> [] then label d
                      else takeWhile (\<lambda>c. c \<noteq> CHR ''.'') (?sel ! i))
       \<and> imageUrl (its ! i) = ''/images/'' @ ''animals'' @ ''/'' @ ?sel ! i
       \<and> tags_item (its ! i) =
         (case find (\<lambda>img. filename img = ?sel ! i) (images animals) of
            None \<Rightarrow> []
          | Some d \<Rightarrow> tags_img d)"
    using item_fields [OF m, of "''all''" ?sel] by blast
  from its(3) have "content (its ! 0) = ''Cat'' \<and> tags_item (its ! 0) = [''mammal'']
     \<and> imageUrl (its ! 0) = ''/images/animals/cat.png''"
    by (simp add: animals_def)
  moreover from its(3) have "content (its ! 1) = ''owl'' \<and> tags_item (its ! 1) = [''bird'']"
    by (simp add: animals_def)
  moreover from its(3) have "content (its ! 2) = ''ghost'' \<and> tags_item (its ! 2) = []"
    by (simp add: animals_def)
  ultimately show ?thesis using its(1,2) by simp
qed

text \<open>
  Claim C5. For a package of the catalog, any tag name and any selection, the items
  are built, all of them go to \<open>handleCreateItems\<close> in a new array, there are as many as file names
  in the selection, the item at position \<open>i\<close> has the id made of the package name, the
  tag name, \<open>item\<close> and \<open>i\<close> in decimal, and no two items of the batch share an id.
\<close>

theorem item_ids:
  assumes "map_of cfg pkg = Some pd"
  shows "\<exists>its. newItems cfg pkg tg imgs = Inr its
           \<and> handleItemSetSelect cfg P pkg tg imgs w =
               Inr (handleCreateItems P (next_ref (mem w))
                      (w\<lparr>mem := snd (new_array its (mem w))\<rparr>))
           \<and> arrays (snd (new_array its (mem w))) (next_ref (mem w)) = its
           \<and> length its = length imgs
           \<and> (\<forall>i < length imgs.
                id_item (its ! i) = pkg @ ''-'' @ tg @ ''-item-'' @ string_of_nat i)
           \<and> distinct (map id_item its)"
proof -
  let ?its = "map (\<lambda>j. projr (newItem (Some pd) pkg tg j (imgs ! j))) [0..<length imgs]"
  have r: "newItems cfg pkg tg imgs = Inr ?its"
    by (rule newItems_present [OF assms])
  have "map id_item ?its =
          map (\<lambda>j. (pkg @ ''-'' @ tg @ ''-item-'') @ string_of_nat j) [0..<length imgs]"
    by (simp add: id_newItem)
  then have d: "distinct (map id_item ?its)"
    by (simp only: distinct_ids)
  have "length ?its = length imgs \<and>
        (\<forall>i < length imgs. id_item (?its ! i) = pkg @ ''-'' @ tg @ ''-item-'' @ string_of_nat i)"
    by (simp add: id_newItem)
  then show ?thesis using r d by (simp add: handleItemSetSelect_def new_array_def)
qed

theorem item_ids_witness:
  "\<exists>its. newItems example_config ''animals'' ''mammal'' [''cat.png'', ''ghost.png''] = Inr its
     \<and> map id_item its = [''animals-mammal-item-0'', ''animals-mammal-item-1'']
     \<and> distinct (map id_item its)"
proof -
  have m: "map_of example_config ''animals'' = Some animals"
    by (simp add: example_config_def)
  obtain its where its:
    "newItems example_config ''animals'' ''mammal'' [''cat.png'', ''ghost.png''] = Inr its"
    "length its = length [''cat.png'', ''ghost.png'']"
    "\<forall>i < length [''cat.png'', ''ghost.png''].
       id_item (its ! i) = ''animals'' @ ''-'' @ ''mammal'' @ ''-item-'' @ string_of_nat i"
    "distinct (map id_item its)"
    using item_ids [OF m, of "''mammal''" "[''cat.png'', ''ghost.png'']" recording_props mounted]
    by blast
  from its(3) have "id_item (its ! 0) = ''animals-mammal-item-0''"
    by (simp add: string_of_nat.simps digit_char_def)
  moreover from its(3) have "id_item (its ! 1) = ''animals-mammal-item-1''"
    by (simp add: string_of_nat.simps digit_char_def)
  ultimately have "map id_item its = [''animals-mammal-item-0'', ''animals-mammal-item-1'']"
    using its(2) by (simp add: list_eq_iff_nth_eq less_Suc_eq)
  then show ?thesis using its(1,4) by simp
qed

section \<open>Properties of \<open>handleCreateItems\<close>\<close>

lemma no_space_in_string_of_nat: "CHR '' '' \<notin> set (string_of_nat n)"
proof (induction n rule: string_of_nat.induct)
  case (1 n)
  have digit: "CHR '' '' \<noteq> digit_char d" if "d < 10" for d
  proof -
    from that have "d = 0 \<or> d = 1 \<or> d = 2 \<or> d = 3 \<or> d = 4 \<or> d = 5 \<or> d = 6 \<or> d = 7 \<or> d = 8 \<or> d = 9"
      by arith
    then show ?thesis by (elim disjE) (simp_all add: digit_char_def)
  qed
  show ?case
  proof (cases "n < 10")
    case True
    then show ?thesis by (simp add: string_of_nat.simps [of n] digit)
  next
    case False
    then show ?thesis using 1 by (simp add: string_of_nat.simps [of n] digit)
  qed
qed

text \<open>The number in front of the first blank of the description of a create.\<close>

lemma count_of_description:
  "nat_of_digits (takeWhile (\<lambda>c. c \<noteq> CHR '' '') (string_of_nat n @ '' item(s) have been added.'')) = n"
proof -
  have "takeWhile (\<lambda>c. c \<noteq> CHR '' '') (string_of_nat n @ '' item(s) have been added.'') =
          string_of_nat n"
    using no_space_in_string_of_nat [of n] by (subst takeWhile_append2) auto
  then show ?thesis by (simp add: nat_of_digits_string_of_nat)
qed

lemma toasts_handleCreateItems:
  "toasts (handleCreateItems P r w) =
     toasts w @
     [\<lparr>toast_title = ''Items Added'',
       toast_description =
         string_of_nat (length (arrays (onItemsCreate P r (mem w)) r)) @
         '' item(s) have been added.'',
       action_label = ''Undo'',
       action_onClick = (\<lambda>m. onUndoItemsCreate P (map id_item (arrays m r)) m)\<rparr>]"
  by (simp add: handleCreateItems_def fire_toast_def Let_def)

lemma mem_handleCreateItems: "mem (handleCreateItems P r w) = onItemsCreate P r (mem w)"
  by (simp add: handleCreateItems_def fire_toast_def Let_def)

text \<open>
  Claim C6, amended. The undo action of the notification of a create, invoked on the
  memory as it is by then, asks the owner to remove the ids that the items of the batch
  array have at that moment, and no others. These are the ids of the items of the batch
  as it was handed to the create whenever the array still holds items with these ids,
  whatever has happened to the board, to the other arrays and to the other fields of
  the items in between; the recording owner then receives one request, with exactly
  these ids.
\<close>

theorem undo_removes_batch_ids:
  "action_onClick (last (toasts (handleCreateItems P r w))) m =
     onUndoItemsCreate P (map id_item (arrays m r)) m
   \<and> (map id_item (arrays m r) = map id_item (arrays (mem w) r) \<longrightarrow>
        action_onClick (last (toasts (handleCreateItems P r w))) m =
        onUndoItemsCreate P (map id_item (arrays (mem w) r)) m)
   \<and> (map id_item (arrays m' r) = map id_item (arrays (mem w') r) \<longrightarrow>
        board (action_onClick (last (toasts (handleCreateItems recording_props r w'))) m') =
        board m' @ [UndoItemsCreate (map id_item (arrays (mem w') r))])"
  by (simp add: toasts_handleCreateItems recording_props_def)

text \<open>
  After the create of the batch that holds \<open>cat_item\<close>, a reset is requested and the
  item is edited, its id left as it was: the undo asks for the id of the batch.
\<close>

theorem undo_removes_batch_ids_witness:
  "arrays (mem (with_batch [cat_item])) 0 = [cat_item]
   \<and> board (action_onClick (last (toasts created)) reset_and_retitled) =
     [ItemsCreate [cat_item], ResetItems, UndoItemsCreate [''animals-all-item-0'']]"
proof -
  have batch: "arrays (mem (with_batch its)) 0 = its" for its
    by (simp add: with_batch_def new_array_def mounted_def)
  have start: "board (mem (with_batch its)) = []" for its
    by (simp add: with_batch_def new_array_def mounted_def)
  have ids_batch: "map id_item (arrays (mem (with_batch [cat_item])) 0) = [''animals-all-item-0'']"
    by (simp add: batch cat_item_def)
  have ids: "map id_item (arrays reset_and_retitled 0) =
             map id_item (arrays (mem (with_batch [cat_item])) 0)"
    by (simp add: reset_and_retitled_def batch cat_item_def tiger_item_def)
  have brd: "board reset_and_retitled = [ItemsCreate [cat_item], ResetItems]"
    by (simp add: reset_and_retitled_def created_def mem_handleCreateItems
        recording_props_def batch start)
  note t = undo_removes_batch_ids [of recording_props 0 "with_batch [cat_item]"
      reset_and_retitled reset_and_retitled "with_batch [cat_item]"]
  have "board (action_onClick (last (toasts created)) reset_and_retitled) =
        board reset_and_retitled @
        [UndoItemsCreate (map id_item (arrays (mem (with_batch [cat_item])) 0))]"
    unfolding created_def by (rule mp [OF conjunct2 [OF conjunct2 [OF t]] ids])
  then have "board (action_onClick (last (toasts created)) reset_and_retitled) =
        [ItemsCreate [cat_item], ResetItems, UndoItemsCreate [''animals-all-item-0'']]"
    by (simp only: brd ids_batch append.simps)
  with batch [of "[cat_item]"] show ?thesis by (rule conjI)
qed

text \<open>
  After the same create the id of the item of the batch is edited in place: the undo
  asks for the new id, which no item of the batch had when it was created.
\<close>

theorem undo_after_edit_counterexample:
  "arrays (mem (with_batch [cat_item])) 0 = [cat_item]
   \<and> map id_item [cat_item] = [''animals-all-item-0'']
   \<and> board (action_onClick (last (toasts created)) edited) =
     [ItemsCreate [cat_item], UndoItemsCreate [''renamed'']]"
  by (simp add: edited_def created_def toasts_handleCreateItems mem_handleCreateItems
      recording_props_def with_batch_def new_array_def mounted_def cat_item_def
      renamed_item_def)

text \<open>
  Claim C8, amended. Every create, of any batch, also an empty one, hands the batch to
  the owner of the board and fires one notification, after those fired before. Its
  description is \<open>item(s) have been added.\<close> after the number, in decimal, of the
  items that the batch array holds once the owner has been handed it. This is the
  number of items of the batch as it was handed to the create, 0 for an empty batch,
  whenever the owner has left the array as it got it.
\<close>

theorem create_notifies_count:
  "mem (handleCreateItems P r w) = onItemsCreate P r (mem w)
   \<and> toasts (handleCreateItems P r w) =
       toasts w @
       [\<lparr>toast_title = ''Items Added'',
         toast_description =
           string_of_nat (length (arrays (onItemsCreate P r (mem w)) r)) @
           '' item(s) have been added.'',
         action_label = ''Undo'',
         action_onClick = (\<lambda>m. onUndoItemsCreate P (map id_item (arrays m r)) m)\<rparr>]
   \<and> nat_of_digits
       (takeWhile (\<lambda>c. c \<noteq> CHR '' '')
          (toast_description (last (toasts (handleCreateItems P r w))))) =
     length (arrays (onItemsCreate P r (mem w)) r)
   \<and> (arrays (onItemsCreate P r (mem w)) r = arrays (mem w) r \<longrightarrow>
        toast_description (last (toasts (handleCreateItems P r w))) =
          string_of_nat (length (arrays (mem w) r)) @ '' item(s) have been added.''
        \<and> nat_of_digits
            (takeWhile (\<lambda>c. c \<noteq> CHR '' '')
               (toast_description (last (toasts (handleCreateItems P r w))))) =
          length (arrays (mem w) r))
   \<and> (arrays (onItemsCreate P r (mem w)) r = arrays (mem w) r \<and> arrays (mem w) r = [] \<longrightarrow>
        toast_description (last (toasts (handleCreateItems P r w))) =
          ''0 item(s) have been added.'')"
proof -
  have zero: "string_of_nat 0 = ''0''"
    by (simp add: string_of_nat.simps digit_char_def)
  show ?thesis
    by (simp add: toasts_handleCreateItems mem_handleCreateItems count_of_description zero)
qed

text \<open>
  A batch of twelve items and an empty batch, created by the recording owner.
\<close>

theorem create_notifies_count_witness:
  "map toast_description
     (toasts (handleCreateItems recording_props 0 (with_batch (replicate 12 cat_item)))) =
     [''12 item(s) have been added.'']
   \<and> board (mem (handleCreateItems recording_props 0 (with_batch (replicate 12 cat_item)))) =
     [ItemsCreate (replicate 12 cat_item)]
   \<and> map toast_description (toasts (handleCreateItems recording_props 0 (with_batch []))) =
     [''0 item(s) have been added.'']"
proof -
  have twelve: "string_of_nat 12 = ''12''"
    by (simp add: string_of_nat.simps digit_char_def)
  have zero: "string_of_nat 0 = ''0''"
    by (simp add: string_of_nat.simps digit_char_def)
  have batch: "arrays (mem (with_batch its)) 0 = its" "toasts (with_batch its) = []"
    "board (mem (with_batch its)) = []" for its
    by (simp_all add: with_batch_def new_array_def mounted_def)
  have kept: "arrays (onItemsCreate recording_props 0 m) 0 = arrays m 0"
    "board (onItemsCreate recording_props 0 m) = board m @ [ItemsCreate (arrays m 0)]"
    for m :: "call list memory"
    by (simp_all add: recording_props_def)
  show ?thesis
    using create_notifies_count [of recording_props 0 "with_batch (replicate 12 cat_item)"]
      create_notifies_count [of recording_props 0 "with_batch []"]
    by (simp add: batch kept twelve zero)
qed

text \<open>
  The owner that appends an item of its own to the array it is handed: the create of
  an empty batch is notified with the number 1.
\<close>

theorem create_count_counterexample:
  "arrays (mem (with_batch [])) 0 = []
   \<and> map toast_description (toasts (handleCreateItems pushing_props 0 (with_batch []))) =
     [''1 item(s) have been added.'']"
  by (simp add: toasts_handleCreateItems pushing_props_def recording_props_def
      with_batch_def new_array_def mounted_def string_of_nat.simps digit_char_def)

end
